theory Spec2Isabelle
  imports Main "HOL-Library.Word"
begin

unbundle bit_operations_syntax

section \<open>The firmware of the Geiger counter (geiger.c)\<close>

text \<open>
  The program runs on an ATtiny2313 (geiger.c, line 11): one main loop and three interrupt
  service routines that share four global variables and the I/O registers of the device.
  The embedding is shallow: every C function is a HOL function on a record holding the
  globals and the registers the program touches. A C \<open>char\<close> and a \<open>uint8_t\<close> are
  \<open>8 word\<close>, the counter is a \<open>64 word\<close>; \<open>+\<close> on words wraps as the C arithmetic does.
\<close>

subsection \<open>Build-time constants and bit names\<close>

type_synonym uint8_t = "8 word"
type_synonym uint16_t = "16 word"
type_synonym uint64_t = "64 word"

definition F_CPU :: nat where "F_CPU = 8000000"
definition BAUD :: nat where "BAUD = 9600"
definition SER_BUFF_LEN :: nat where "SER_BUFF_LEN = 17"
definition PULSEWIDTH :: nat where "PULSEWIDTH = 100"
definition UINT64_MAX :: uint64_t where "UINT64_MAX = 0xFFFFFFFFFFFFFFFF"

text \<open>
  The bit numbers come from the device header that \<open>avr/io.h\<close> selects for the ATtiny2313;
  the header is part of avr-libc, not of this repository. The values are those of the
  register summary of the data sheet. \<open>UINT64_MAX\<close> above is the constant of
  \<open>stdint.h\<close>.
\<close>

definition PB2 :: nat where "PB2 = 2"
definition PB4 :: nat where "PB4 = 4"
definition PD3 :: nat where "PD3 = 3"
definition PD6 :: nat where "PD6 = 6"
definition INTF1 :: nat where "INTF1 = 7"
definition COM0A1 :: nat where "COM0A1 = 7"
definition COM0A0 :: nat where "COM0A0 = 6"
definition WGM02 :: nat where "WGM02 = 3"
definition WGM01 :: nat where "WGM01 = 1"
definition WGM00 :: nat where "WGM00 = 0"
definition CS01 :: nat where "CS01 = 1"
definition WGM12 :: nat where "WGM12 = 3"
definition CS12 :: nat where "CS12 = 2"
definition CS11 :: nat where "CS11 = 1"
definition CS10 :: nat where "CS10 = 0"
definition OCIE1A :: nat where "OCIE1A = 6"
definition RXEN :: nat where "RXEN = 4"
definition TXEN :: nat where "TXEN = 3"
definition UDRE :: nat where "UDRE = 5"
definition ISC01 :: nat where "ISC01 = 1"
definition ISC11 :: nat where "ISC11 = 3"
definition INT0 :: nat where "INT0 = 6"
definition INT1 :: nat where "INT1 = 7"
definition SM0 :: nat where "SM0 = 4"
definition SE :: nat where "SE = 5"
definition SM1 :: nat where "SM1 = 6"
definition SLEEP_MODE_IDLE :: uint8_t where "SLEEP_MODE_IDLE = 0"

text \<open>The macro \<open>_BV(n)\<close> is \<open>1 << n\<close>.\<close>

definition BV :: "nat \<Rightarrow> uint8_t" where
  "BV n = push_bit n 1"

subsection \<open>The state: globals, registers and the environment\<close>

text \<open>
  \<open>feedback_mode\<close>, \<open>count\<close>, \<open>eventflag\<close>, \<open>tick\<close> and \<open>serbuf\<close> are the globals of
  lines 87 to 93. The upper-case fields are the I/O registers the program writes.
  \<open>UDR_sent\<close> lists the bytes written to the UART data register, oldest first: it is
  what the serial line carries. \<open>UCSRA_reads\<close> is the input the UART status register
  gives: the values that the coming reads of UCSRA return, in order. \<open>elapsed_us\<close> adds up
  the busy-wait delays, in microseconds.
\<close>

record state =
  feedback_mode :: uint8_t
  count :: uint64_t
  eventflag :: uint8_t
  tick :: uint8_t
  serbuf :: "uint8_t list"
  PORTB :: uint8_t
  PORTD :: uint8_t
  DDRB :: uint8_t
  DDRD :: uint8_t
  EIFR :: uint8_t
  MCUCR :: uint8_t
  GIMSK :: uint8_t
  TIMSK :: uint8_t
  TCCR0A :: uint8_t
  TCCR0B :: uint8_t
  OCR0A :: uint8_t
  TCCR1B :: uint8_t
  OCR1A :: uint16_t
  UBRRH :: uint8_t
  UBRRL :: uint8_t
  UCSRB :: uint8_t
  interrupts_enabled :: bool
  UDR_sent :: "uint8_t list"
  UCSRA_reads :: "uint8_t list"
  elapsed_us :: nat

text \<open>\<open>_delay_us\<close> and \<open>_delay_ms\<close> busy-wait for a fixed time and touch nothing else.\<close>

definition delay_us :: "nat \<Rightarrow> state \<Rightarrow> state" where
  "delay_us n s = s\<lparr>elapsed_us := elapsed_us s + n\<rparr>"

definition delay_ms :: "nat \<Rightarrow> state \<Rightarrow> state" where
  "delay_ms n s = s\<lparr>elapsed_us := elapsed_us s + 1000 * n\<rparr>"

subsection \<open>Interrupt service routines\<close>

text \<open>
  \<open>ISR(INT0_vect)\<close>, lines 100 to 113: the saturating increment, the pulse on PD6 and the
  event flag.
\<close>

definition INT0_vect :: "state \<Rightarrow> state" where
  "INT0_vect s =
     (let s1 = (if count s < UINT64_MAX then s\<lparr>count := count s + 1\<rparr> else s);
          s2 = s1\<lparr>PORTD := PORTD s1 OR BV PD6\<rparr>;
          s3 = delay_us PULSEWIDTH s2;
          s4 = s3\<lparr>PORTD := PORTD s3 AND NOT (BV PD6)\<rparr>
      in s4\<lparr>eventflag := 1\<rparr>)"

text \<open>
  \<open>ISR(INT1_vect)\<close>, lines 119 to 125. The argument \<open>pind\<close> is the value the read of the
  input register PIND returns after the 25 ms delay; the button pulls bit PD3 low while
  it is pressed. The last statement stores \<open>EIFR | _BV(INTF1)\<close> in EIFR.
\<close>

definition INT1_vect :: "uint8_t \<Rightarrow> state \<Rightarrow> state" where
  "INT1_vect pind s =
     (let s1 = delay_ms 25 s;
          s2 = (if pind AND BV PD3 = 0
                then s1\<lparr>feedback_mode := feedback_mode s1 + 1\<rparr> else s1)
      in s2\<lparr>EIFR := EIFR s2 OR BV INTF1\<rparr>)"

text \<open>\<open>ISR(TIMER1_COMPA_vect)\<close>, lines 130 to 133.\<close>

definition TIMER1_COMPA_vect :: "state \<Rightarrow> state" where
  "TIMER1_COMPA_vect s = s\<lparr>tick := 1\<rparr>"

subsection \<open>Faults\<close>

text \<open>
  Two things can keep a routine from returning a state. The wait for the UART goes on for
  as long as the status register reads "not ready": \<open>Tx_stalled\<close> says that the reads
  the environment supplies ran out before the transmitter was ready. A store or a load
  outside the array a pointer refers to is \<open>Out_of_bounds\<close>.
\<close>

datatype fault = Tx_stalled | Out_of_bounds

subsection \<open>Serial transmitter\<close>

text \<open>
  \<open>loop_until_bit_is_set(UCSRA, UDRE)\<close> reads UCSRA until bit UDRE is set. It consumes
  the reads it makes and returns the ones that are left.
\<close>

fun loop_until_bit_is_set :: "uint8_t list \<Rightarrow> nat \<Rightarrow> fault + uint8_t list" where
  "loop_until_bit_is_set [] b = Inl Tx_stalled"
| "loop_until_bit_is_set (v # vs) b =
     (if v AND BV b \<noteq> 0 then Inr vs else loop_until_bit_is_set vs b)"

text \<open>
  \<open>uart_putchar\<close>, lines 138 to 144: a line feed is preceded by a carriage return, sent
  by a recursive call.
\<close>

function uart_putchar :: "uint8_t \<Rightarrow> state \<Rightarrow> fault + state" where
  "uart_putchar c s =
     (case (if c = of_char CHR 0x0A then uart_putchar (of_char CHR 0x0D) s else Inr s) of
        Inl e \<Rightarrow> Inl e
      | Inr s1 \<Rightarrow>
          (case loop_until_bit_is_set (UCSRA_reads s1) UDRE of
             Inl e \<Rightarrow> Inl e
           | Inr rest \<Rightarrow> Inr (s1\<lparr>UCSRA_reads := rest, UDR_sent := UDR_sent s1 @ [c]\<rparr>)))"
  by pat_completeness auto
termination
  by (relation "measure (\<lambda>(c, s). if c = of_char CHR 0x0A then 1 else 0)") auto

declare uart_putchar.simps [simp del]

text \<open>
  \<open>uart_putstring\<close>, lines 147 to 154. The argument is the array from the pointer on; the
  loop stops at the first NUL and must not run past the end of the array.
\<close>

fun uart_putstring :: "uint8_t list \<Rightarrow> state \<Rightarrow> fault + state" where
  "uart_putstring [] s = Inl Out_of_bounds"
| "uart_putstring (c # cs) s =
     (if c \<noteq> 0
      then (case uart_putchar c s of Inl e \<Rightarrow> Inl e | Inr s1 \<Rightarrow> uart_putstring cs s1)
      else Inr s)"

text \<open>
  \<open>uart_putstring_P\<close>, lines 157 to 162, is the same loop over a string in program
  memory. The program never calls it.
\<close>

fun uart_putstring_P :: "uint8_t list \<Rightarrow> state \<Rightarrow> fault + state" where
  "uart_putstring_P [] s = Inl Out_of_bounds"
| "uart_putstring_P (c # cs) s =
     (if c \<noteq> 0
      then (case uart_putchar c s of Inl e \<Rightarrow> Inl e | Inr s1 \<Rightarrow> uart_putstring_P cs s1)
      else Inr s)"

subsection \<open>Feedback: LED and piezo\<close>

text \<open>
  \<open>checkevent\<close>, lines 165 to 187, in the order of its statements: the flag is reset
  (line 168), the outputs are switched on as \<open>feedback_mode\<close> says (lines 170 to 177),
  the routine waits 10 ms (line 180) and switches everything off (lines 182 to 185).
\<close>

definition checkevent_clear :: "state \<Rightarrow> state" where
  "checkevent_clear s = s\<lparr>eventflag := 0\<rparr>"

definition checkevent_on :: "state \<Rightarrow> state" where
  "checkevent_on s =
     (let s1 = (if feedback_mode s AND 1 \<noteq> 0 then s\<lparr>PORTB := PORTB s OR BV PB4\<rparr> else s);
          s2 = (if feedback_mode s1 AND 2 \<noteq> 0
                then s1\<lparr>TCCR0A := TCCR0A s1 OR BV COM0A0,
                        TCCR0B := TCCR0B s1 OR BV CS01,
                        OCR0A := 160\<rparr>
                else s1)
      in s2)"

definition checkevent_off :: "state \<Rightarrow> state" where
  "checkevent_off s =
     (let s1 = s\<lparr>PORTB := PORTB s AND NOT (BV PB4)\<rparr>;
          s2 = s1\<lparr>TCCR0B := 0\<rparr>
      in s2\<lparr>TCCR0A := TCCR0A s2 AND NOT (BV COM0A0)\<rparr>)"

definition checkevent :: "state \<Rightarrow> state" where
  "checkevent s =
     (if eventflag s \<noteq> 0
      then checkevent_off (delay_ms 10 (checkevent_on (checkevent_clear s)))
      else s)"

subsection \<open>Hexadecimal encoding and the report\<close>

text \<open>
  \<open>hexu64\<close>, lines 190 to 204. The pointer \<open>p\<close> is its offset from \<open>buf\<close>, an integer
  that the loop counts down from 15 and that ends the loop once it is below 0. A store
  outside the array is a fault. The last argument of the loop counts the executions of
  the loop body; the source has no such variable, it is there to be reasoned about.
  The sums \<open>'0' + d\<close> and \<open>'A' + (d - 10)\<close> are computed in \<open>int\<close> and cut to
  eight bits by the store, which is the addition of \<open>8 word\<close>.
\<close>

function hexu64_loop ::
  "int \<Rightarrow> uint64_t \<Rightarrow> uint8_t list \<Rightarrow> nat \<Rightarrow> fault + (uint8_t list \<times> nat)" where
  "hexu64_loop p x buf n =
     (if p \<ge> 0
      then (let d = (ucast (x AND 0xF) :: uint8_t);
                c = (if d < 10 then of_char CHR ''0'' + d else of_char CHR ''A'' + (d - 10))
            in if nat p < length buf
               then hexu64_loop (p - 1) (drop_bit 4 x) (buf[nat p := c]) (Suc n)
               else Inl Out_of_bounds)
      else Inr (buf, n))"
  by pat_completeness auto
termination
  by (relation "measure (\<lambda>(p, x, buf, n). nat (p + 1))") auto

declare hexu64_loop.simps [simp del]

definition hexu64_counted :: "uint64_t \<Rightarrow> uint8_t list \<Rightarrow> fault + (uint8_t list \<times> nat)" where
  "hexu64_counted x buf =
     (if 16 < length buf then hexu64_loop 15 x (buf[16 := 0]) 0 else Inl Out_of_bounds)"

definition hexu64 :: "uint64_t \<Rightarrow> uint8_t list \<Rightarrow> fault + uint8_t list" where
  "hexu64 x buf = (case hexu64_counted x buf of Inl e \<Rightarrow> Inl e | Inr (buf', n) \<Rightarrow> Inr buf')"

text \<open>\<open>sendreport\<close>, lines 207 to 217.\<close>

definition sendreport :: "state \<Rightarrow> fault + state" where
  "sendreport s =
     (if tick s \<noteq> 0
      then (let s1 = s\<lparr>tick := 0\<rparr> in
            case hexu64 (count s1) (serbuf s1) of
              Inl e \<Rightarrow> Inl e
            | Inr buf \<Rightarrow>
                (let s2 = s1\<lparr>serbuf := buf\<rparr> in
                 case uart_putstring (serbuf s2) s2 of
                   Inl e \<Rightarrow> Inl e
                 | Inr s3 \<Rightarrow> uart_putchar (of_char CHR 0x0A) s3))
      else Inr s)"

subsection \<open>Start-up\<close>

text \<open>
  The state \<open>main\<close> starts from: the C start-up code has zeroed the globals (\<open>serbuf\<close> is
  an array of \<open>SER_BUFF_LEN\<close> bytes), the registers used here read 0 after a reset and
  interrupts are off. The argument is what the UART status register will read.
\<close>

definition power_on :: "uint8_t list \<Rightarrow> state" where
  "power_on ucsra =
     \<lparr>feedback_mode = 0, count = 0, eventflag = 0, tick = 0,
      serbuf = replicate SER_BUFF_LEN 0,
      PORTB = 0, PORTD = 0, DDRB = 0, DDRD = 0, EIFR = 0, MCUCR = 0, GIMSK = 0, TIMSK = 0,
      TCCR0A = 0, TCCR0B = 0, OCR0A = 0, TCCR1B = 0, OCR1A = 0,
      UBRRH = 0, UBRRL = 0, UCSRB = 0,
      interrupts_enabled = False, UDR_sent = [], UCSRA_reads = ucsra, elapsed_us = 0\<rparr>"

text \<open>
  \<open>main\<close> up to \<open>sei()\<close>, lines 224 to 258. In line 224 the cast to \<open>unsigned char\<close>
  binds tighter than the shift.
\<close>

definition main_init :: "state \<Rightarrow> state" where
  "main_init s =
     (let s1 = s\<lparr>UBRRH := drop_bit 8 (of_nat (F_CPU div (16 * BAUD) - 1) :: uint8_t)\<rparr>;
          s2 = s1\<lparr>UBRRL := of_nat (F_CPU div (16 * BAUD) - 1)\<rparr>;
          s3 = s2\<lparr>UCSRB := push_bit RXEN 1 OR push_bit TXEN 1\<rparr>;
          s4 = s3\<lparr>DDRB := BV PB4 OR BV PB2\<rparr>;
          s5 = s4\<lparr>DDRD := BV PD6\<rparr>;
          s6 = s5\<lparr>PORTD := PORTD s5 OR BV PD3\<rparr>;
          s7 = s6\<lparr>MCUCR := MCUCR s6 OR (BV ISC01 OR BV ISC11)\<rparr>;
          s8 = s7\<lparr>GIMSK := GIMSK s7 OR (BV INT0 OR BV INT1)\<rparr>;
          s9 = s8\<lparr>TCCR0A := push_bit COM0A1 0 OR push_bit COM0A0 1 OR push_bit WGM02 0
                               OR push_bit WGM01 1 OR push_bit WGM00 0\<rparr>;
          s10 = s9\<lparr>TCCR0B := 0\<rparr>;
          s11 = s10\<lparr>TCCR1B := BV WGM12 OR BV CS12 OR BV CS10\<rparr>;
          s12 = s11\<lparr>OCR1A := 65535\<rparr>;
          s13 = s12\<lparr>TIMSK := BV OCIE1A\<rparr>;
          s14 = s13\<lparr>feedback_mode := 0\<rparr>;
          s15 = s14\<lparr>count := 0\<rparr>
      in s15\<lparr>interrupts_enabled := True\<rparr>)"

subsection \<open>Timer1 as the tick generator\<close>

text \<open>
  What the timer hardware makes of the two registers \<open>main\<close> writes. The clock-select
  bits CS12..CS10 of TCCR1B choose the prescaler (\<open>None\<close>: the timer is stopped or runs
  from an external pin); lines 248 and 250 of the source name two of the entries, 256 for
  CS12 and 1024 for CS12 with CS10. In CTC mode (WGM12) the counter runs from 0 to OCR1A,
  which is OCR1A + 1 counts from one compare interrupt to the next (line 128).
\<close>

definition timer1_prescaler :: "uint8_t \<Rightarrow> nat option" where
  "timer1_prescaler tccr1b =
     (let cs = unat (tccr1b AND (BV CS12 OR BV CS11 OR BV CS10))
      in if cs = 1 then Some 1
         else if cs = 2 then Some 8
         else if cs = 3 then Some 64
         else if cs = 4 then Some 256
         else if cs = 5 then Some 1024
         else None)"

text \<open>The length of one timer count and of one tick, in microseconds.\<close>

definition timer1_count_us :: "state \<Rightarrow> nat option" where
  "timer1_count_us s =
     (case timer1_prescaler (TCCR1B s) of
        None \<Rightarrow> None
      | Some p \<Rightarrow> Some (p * 1000000 div F_CPU))"

definition tick_period_us :: "state \<Rightarrow> nat option" where
  "tick_period_us s =
     (if TCCR1B s AND BV WGM12 \<noteq> 0
      then (case timer1_prescaler (TCCR1B s) of
              None \<Rightarrow> None
            | Some p \<Rightarrow> Some ((unat (OCR1A s) + 1) * p * 1000000 div F_CPU))
      else None)"

subsection \<open>The main loop\<close>

text \<open>The macros of \<open>avr/sleep.h\<close>; the sleep control register of the device is MCUCR.\<close>

definition set_sleep_mode :: "uint8_t \<Rightarrow> state \<Rightarrow> state" where
  "set_sleep_mode m s = s\<lparr>MCUCR := (MCUCR s AND NOT (BV SM0 OR BV SM1)) OR m\<rparr>"

definition sleep_enable :: "state \<Rightarrow> state" where
  "sleep_enable s = s\<lparr>MCUCR := MCUCR s OR BV SE\<rparr>"

definition sleep_disable :: "state \<Rightarrow> state" where
  "sleep_disable s = s\<lparr>MCUCR := MCUCR s AND NOT (BV SE)\<rparr>"

text \<open>
  The interrupts. \<open>Button pind\<close> carries the value PIND has when the handler samples it.
  A handler runs to its end before anything else happens (the hardware clears the global
  interrupt flag on entry).
\<close>

datatype irq = Detector_pulse | Button uint8_t | Timer1_match

fun isr :: "irq \<Rightarrow> state \<Rightarrow> state" where
  "isr Detector_pulse s = INT0_vect s"
| "isr (Button pind) s = INT1_vect pind s"
| "isr Timer1_match s = TIMER1_COMPA_vect s"

text \<open>
  The main program runs with interrupts enabled, in the loop and inside the routines it
  calls. To let an interrupt arrive between any two statements, the program from line 260
  on is a machine that executes one statement per step. The program points of the loop:
  \<open>Loop_head\<close> (the test of \<open>while(1)\<close>), \<open>At_set_sleep_mode\<close> (line 263),
  \<open>At_sleep_enable\<close> (line 264), \<open>At_sleep_cpu\<close> (line 265), \<open>Asleep\<close> (the CPU is
  halted), \<open>At_wake\<close> (line 270), \<open>At_check1\<close> (line 272), \<open>At_report\<close> (line 274),
  \<open>At_check2\<close> (line 276) and \<open>Exited\<close> (line 279, after the loop).
\<close>

datatype pc =
  Loop_head | At_set_sleep_mode | At_sleep_enable | At_sleep_cpu | Asleep | At_wake
  | At_check1 | At_report | At_check2 | Exited

text \<open>
  The program points of the routines, one for each statement in the order of the source,
  and one for the return. \<open>checkevent\<close>: lines 167, 168, 170, 171, 173, 174, 175, 176,
  180, 182, 184 and 185. \<open>sendreport\<close>: lines 209, 210, 213, 214 and 215. \<open>hexu64\<close>:
  lines 193, 194, the test of line 196, lines 197 to 201 (the digit and its store), line
  202 and the decrement of line 196. \<open>uart_putstring\<close>: the test of line 150, lines 151
  and 152. \<open>uart_putchar\<close>: line 140, one read of UCSRA in the wait of line 142, and
  line 143.
\<close>

datatype ce_point =
  CE_test | CE_clear | CE_led_test | CE_led_on | CE_tone_test | CE_tone_connect
  | CE_tone_clock | CE_tone_compare | CE_delay | CE_led_off | CE_timer_stop | CE_disconnect
  | CE_return

datatype sr_point = SR_test | SR_clear | SR_hexu64 | SR_putstring | SR_newline | SR_return

datatype hx_point = HX_init | HX_nul | HX_test | HX_digit | HX_shift | HX_dec | HX_return

datatype ps_point = PS_test | PS_call | PS_inc | PS_return

datatype pc_point = PC_test | PC_wait | PC_write | PC_return

text \<open>
  An activation of a routine: where it is and what its parameters and locals hold. For
  \<open>hexu64\<close> these are \<open>x\<close> and the offset of \<open>p\<close> from \<open>buf\<close>, for \<open>uart_putstring\<close>
  the offset of \<open>buffer\<close> from \<open>serbuf\<close>, for \<open>uart_putchar\<close> the character \<open>c\<close>. The
  buffer that \<open>hexu64\<close> and \<open>uart_putstring\<close> are given is \<open>serbuf\<close>; there is no other
  call in the program. What \<open>p\<close> holds before line 193 sets it does not matter. A
  statement is one step, also the read of the 64-bit \<open>count\<close> for the call in line 213:
  in which order the compiled code loads its eight bytes is not in the source.
\<close>

datatype frame =
  Checkevent ce_point
  | Sendreport sr_point
  | Hexu64 hx_point uint64_t int
  | Putstring ps_point nat
  | Putchar pc_point uint8_t

text \<open>
  One step of the routine on top of the call stack. The result is the state and the
  frames that take the place of the top frame: the frame moved on; nothing, when the
  routine returns; or the frame of a callee on top of the frame moved on to where the
  call returns to.
\<close>

fun callee_step :: "frame \<Rightarrow> state \<Rightarrow> fault + (frame list \<times> state)" where
  "callee_step (Checkevent CE_test) s =
     Inr ([Checkevent (if eventflag s \<noteq> 0 then CE_clear else CE_return)], s)"
| "callee_step (Checkevent CE_clear) s =
     Inr ([Checkevent CE_led_test], s\<lparr>eventflag := 0\<rparr>)"
| "callee_step (Checkevent CE_led_test) s =
     Inr ([Checkevent (if feedback_mode s AND 1 \<noteq> 0 then CE_led_on else CE_tone_test)], s)"
| "callee_step (Checkevent CE_led_on) s =
     Inr ([Checkevent CE_tone_test], s\<lparr>PORTB := PORTB s OR BV PB4\<rparr>)"
| "callee_step (Checkevent CE_tone_test) s =
     Inr ([Checkevent (if feedback_mode s AND 2 \<noteq> 0 then CE_tone_connect else CE_delay)], s)"
| "callee_step (Checkevent CE_tone_connect) s =
     Inr ([Checkevent CE_tone_clock], s\<lparr>TCCR0A := TCCR0A s OR BV COM0A0\<rparr>)"
| "callee_step (Checkevent CE_tone_clock) s =
     Inr ([Checkevent CE_tone_compare], s\<lparr>TCCR0B := TCCR0B s OR BV CS01\<rparr>)"
| "callee_step (Checkevent CE_tone_compare) s =
     Inr ([Checkevent CE_delay], s\<lparr>OCR0A := 160\<rparr>)"
| "callee_step (Checkevent CE_delay) s =
     Inr ([Checkevent CE_led_off], delay_ms 10 s)"
| "callee_step (Checkevent CE_led_off) s =
     Inr ([Checkevent CE_timer_stop], s\<lparr>PORTB := PORTB s AND NOT (BV PB4)\<rparr>)"
| "callee_step (Checkevent CE_timer_stop) s =
     Inr ([Checkevent CE_disconnect], s\<lparr>TCCR0B := 0\<rparr>)"
| "callee_step (Checkevent CE_disconnect) s =
     Inr ([Checkevent CE_return], s\<lparr>TCCR0A := TCCR0A s AND NOT (BV COM0A0)\<rparr>)"
| "callee_step (Checkevent CE_return) s = Inr ([], s)"
| "callee_step (Sendreport SR_test) s =
     Inr ([Sendreport (if tick s \<noteq> 0 then SR_clear else SR_return)], s)"
| "callee_step (Sendreport SR_clear) s =
     Inr ([Sendreport SR_hexu64], s\<lparr>tick := 0\<rparr>)"
| "callee_step (Sendreport SR_hexu64) s =
     Inr ([Hexu64 HX_init (count s) 0, Sendreport SR_putstring], s)"
| "callee_step (Sendreport SR_putstring) s =
     Inr ([Putstring PS_test 0, Sendreport SR_newline], s)"
| "callee_step (Sendreport SR_newline) s =
     Inr ([Putchar PC_test (of_char CHR 0x0A), Sendreport SR_return], s)"
| "callee_step (Sendreport SR_return) s = Inr ([], s)"
| "callee_step (Hexu64 HX_init x p) s = Inr ([Hexu64 HX_nul x 15], s)"
| "callee_step (Hexu64 HX_nul x p) s =
     (if 16 < length (serbuf s)
      then Inr ([Hexu64 HX_test x p], s\<lparr>serbuf := (serbuf s)[16 := 0]\<rparr>)
      else Inl Out_of_bounds)"
| "callee_step (Hexu64 HX_test x p) s =
     Inr ([Hexu64 (if p \<ge> 0 then HX_digit else HX_return) x p], s)"
| "callee_step (Hexu64 HX_digit x p) s =
     (let d = (ucast (x AND 0xF) :: uint8_t);
          c = (if d < 10 then of_char CHR ''0'' + d else of_char CHR ''A'' + (d - 10))
      in if 0 \<le> p \<and> nat p < length (serbuf s)
         then Inr ([Hexu64 HX_shift x p], s\<lparr>serbuf := (serbuf s)[nat p := c]\<rparr>)
         else Inl Out_of_bounds)"
| "callee_step (Hexu64 HX_shift x p) s = Inr ([Hexu64 HX_dec (drop_bit 4 x) p], s)"
| "callee_step (Hexu64 HX_dec x p) s = Inr ([Hexu64 HX_test x (p - 1)], s)"
| "callee_step (Hexu64 HX_return x p) s = Inr ([], s)"
| "callee_step (Putstring PS_test i) s =
     (if i < length (serbuf s)
      then Inr ([Putstring (if serbuf s ! i \<noteq> 0 then PS_call else PS_return) i], s)
      else Inl Out_of_bounds)"
| "callee_step (Putstring PS_call i) s =
     (if i < length (serbuf s)
      then Inr ([Putchar PC_test (serbuf s ! i), Putstring PS_inc i], s)
      else Inl Out_of_bounds)"
| "callee_step (Putstring PS_inc i) s = Inr ([Putstring PS_test (Suc i)], s)"
| "callee_step (Putstring PS_return i) s = Inr ([], s)"
| "callee_step (Putchar PC_test c) s =
     (if c = of_char CHR 0x0A
      then Inr ([Putchar PC_test (of_char CHR 0x0D), Putchar PC_wait c], s)
      else Inr ([Putchar PC_wait c], s))"
| "callee_step (Putchar PC_wait c) s =
     (case UCSRA_reads s of
        [] \<Rightarrow> Inl Tx_stalled
      | v # vs \<Rightarrow>
          Inr ([Putchar (if v AND BV UDRE \<noteq> 0 then PC_write else PC_wait) c],
               s\<lparr>UCSRA_reads := vs\<rparr>))"
| "callee_step (Putchar PC_write c) s =
     Inr ([Putchar PC_return c], s\<lparr>UDR_sent := UDR_sent s @ [c]\<rparr>)"
| "callee_step (Putchar PC_return c) s = Inr ([], s)"

text \<open>
  One step of the loop itself: the next program point, the frame of the routine it calls,
  if it calls one, and the state. A halted CPU makes no progress of its own. The loop
  condition is the constant 1.
\<close>

fun main_step :: "pc \<Rightarrow> state \<Rightarrow> pc \<times> frame list \<times> state" where
  "main_step Loop_head s = (if (1::int) \<noteq> 0 then At_set_sleep_mode else Exited, [], s)"
| "main_step At_set_sleep_mode s = (At_sleep_enable, [], set_sleep_mode SLEEP_MODE_IDLE s)"
| "main_step At_sleep_enable s = (At_sleep_cpu, [], sleep_enable s)"
| "main_step At_sleep_cpu s = (Asleep, [], s)"
| "main_step Asleep s = (Asleep, [], s)"
| "main_step At_wake s = (At_check1, [], sleep_disable s)"
| "main_step At_check1 s = (At_report, [Checkevent CE_test], s)"
| "main_step At_report s = (At_check2, [Sendreport SR_test], s)"
| "main_step At_check2 s = (Loop_head, [Checkevent CE_test], s)"
| "main_step Exited s = (Exited, [], s)"

text \<open>
  The log of the calls the loop makes is read off the frames it puts on the stack: an
  entry is the name of the routine whose frame was pushed.
\<close>

datatype call = Call_checkevent | Call_sendreport

fun entered :: "frame list \<Rightarrow> call list" where
  "entered [] = []"
| "entered (Checkevent q # fs) = Call_checkevent # entered fs"
| "entered (Sendreport q # fs) = Call_sendreport # entered fs"
| "entered (f # fs) = entered fs"

text \<open>
  A configuration: the log, the program point of the loop (where \<open>main\<close> goes on when
  the routine it called has returned), the stack of the routines under way, innermost
  first, and the state. The log is not a variable of the source.
\<close>

type_synonym config = "call list \<times> pc \<times> frame list \<times> state"

fun cpu_step :: "config \<Rightarrow> fault + config" where
  "cpu_step (calls, p, [], s) =
     (case main_step p s of (p', fs, s') \<Rightarrow> Inr (calls @ entered fs, p', fs, s'))"
| "cpu_step (calls, p, f # stack, s) =
     (case callee_step f s of
        Inl e \<Rightarrow> Inl e
      | Inr (fs, s') \<Rightarrow> Inr (calls, p, fs @ stack, s'))"

text \<open>
  An interrupt runs its handler on the state and leaves the main program where it was;
  if it finds the CPU asleep it wakes it.
\<close>

fun take_irq :: "irq \<Rightarrow> config \<Rightarrow> config" where
  "take_irq i (calls, p, stack, s) = (calls, if p = Asleep then At_wake else p, stack, isr i s)"

text \<open>
  A run: the events are interrupts and steps of the main program, in the order in which
  they happen.
\<close>

datatype event = Interrupt irq | Cpu

fun run :: "event list \<Rightarrow> config \<Rightarrow> fault + config" where
  "run [] c = Inr c"
| "run (Interrupt i # es) c = run es (take_irq i c)"
| "run (Cpu # es) c = (case cpu_step c of Inl e \<Rightarrow> Inl e | Inr c' \<Rightarrow> run es c')"







text \<open>
  A state as it is after start-up and after every return of \<open>checkevent\<close>: the serial
  buffer has its \<open>SER_BUFF_LEN\<close> bytes, the LED is off and Timer0 is stopped.
\<close>

definition settled :: "state \<Rightarrow> bool" where
  "settled s \<longleftrightarrow>
     length (serbuf s) = SER_BUFF_LEN \<and> \<not> bit (PORTB s) PB4 \<and> TCCR0B s = 0"

text \<open>The number of detector pulses among the events of a run.\<close>

definition pulses :: "event list \<Rightarrow> nat" where
  "pulses evs = length (filter (\<lambda>e. e = Interrupt Detector_pulse) evs)"

subsection \<open>Reading a report back\<close>

text \<open>
  The reader the specification speaks of ("parsing the hex string back to an integer"):
  base 16, most significant digit first, digits \<open>0\<close> to \<open>9\<close> and upper-case \<open>A\<close> to \<open>F\<close>
  only. It is not part of the source.
\<close>

definition hex_digit_value :: "uint8_t \<Rightarrow> nat option" where
  "hex_digit_value c =
     (if of_char CHR ''0'' \<le> c \<and> c \<le> of_char CHR ''9'' then Some (unat c - 48)
      else if of_char CHR ''A'' \<le> c \<and> c \<le> of_char CHR ''F'' then Some (unat c - 55)
      else None)"

fun parse_hex_from :: "nat \<Rightarrow> uint8_t list \<Rightarrow> nat option" where
  "parse_hex_from a [] = Some a"
| "parse_hex_from a (c # cs) =
     (case hex_digit_value c of None \<Rightarrow> None | Some d \<Rightarrow> parse_hex_from (16 * a + d) cs)"

definition parse_hex :: "uint8_t list \<Rightarrow> nat option" where
  "parse_hex cs = parse_hex_from 0 cs"

text \<open>
  The character the loop body of \<open>hexu64\<close> stores for the low four bits of \<open>x\<close>, and the
  \<open>k\<close> characters for the low \<open>4 * k\<close> bits, most significant first.
\<close>

definition nibble_char :: "uint64_t \<Rightarrow> uint8_t" where
  "nibble_char x =
     (let d = (ucast (x AND 0xF) :: uint8_t)
      in if d < 10 then of_char CHR ''0'' + d else of_char CHR ''A'' + (d - 10))"

fun hex_digits :: "nat \<Rightarrow> uint64_t \<Rightarrow> uint8_t list" where
  "hex_digits 0 x = []"
| "hex_digits (Suc k) x = hex_digits k (drop_bit 4 x) @ [nibble_char x]"

text \<open>An upper-case hexadecimal digit: \<open>0\<close> to \<open>9\<close> or \<open>A\<close> to \<open>F\<close>.\<close>

definition is_hex_upper :: "uint8_t \<Rightarrow> bool" where
  "is_hex_upper c =
     ((of_char CHR ''0'' \<le> c \<and> c \<le> of_char CHR ''9'') \<or>
      (of_char CHR ''A'' \<le> c \<and> c \<le> of_char CHR ''F''))"

text \<open>How many of the coming reads of UCSRA show the transmitter ready (UDRE set).\<close>

definition tx_ready_count :: "uint8_t list \<Rightarrow> nat" where
  "tx_ready_count reads = length (filter (\<lambda>v. v AND BV UDRE \<noteq> 0) reads)"

text \<open>A C string literal as bytes.\<close>

definition c_string :: "string \<Rightarrow> uint8_t list" where
  "c_string cs = map of_char cs"

section \<open>Properties\<close>

lemmas bit_names =
  PB2_def PB4_def PD3_def PD6_def INTF1_def COM0A1_def COM0A0_def WGM02_def WGM01_def
  WGM00_def CS01_def WGM12_def CS12_def CS11_def CS10_def OCIE1A_def RXEN_def TXEN_def
  UDRE_def ISC01_def ISC11_def INT0_def INT1_def SM0_def SE_def SM1_def

subsection \<open>The event counter\<close>

lemma count_INT0: "count (INT0_vect s) = (if count s < UINT64_MAX then count s + 1 else count s)"
  by (simp add: INT0_vect_def delay_us_def Let_def)

lemma unat_UINT64_MAX: "unat UINT64_MAX = 2 ^ 64 - 1"
  by (simp add: UINT64_MAX_def)

lemma unat_count_INT0: "unat (count (INT0_vect s)) = min (unat (count s) + 1) (2 ^ 64 - 1)"
proof (cases "count s < UINT64_MAX")
  case True
  then have lt: "unat (count s) < 2 ^ 64 - 1"
    by (simp add: word_less_nat_alt unat_UINT64_MAX)
  then have "unat (count s + 1) = unat (count s) + 1"
    by (simp add: unat_word_ariths)
  with True lt show ?thesis by (simp add: count_INT0)
next
  case False
  have "unat (count s) < 2 ^ 64" using unsigned_less [of "count s", where ?'a=nat] by simp
  moreover from False have "unat (count s) \<ge> 2 ^ 64 - 1"
    by (simp add: word_less_nat_alt unat_UINT64_MAX)
  ultimately show ?thesis using False by (simp add: count_INT0)
qed

lemma unat_count_pulses:
  "unat (count ((INT0_vect ^^ N) s)) = min (unat (count s) + N) (2 ^ 64 - 1)"
proof (induction N)
  case 0
  have "unat (count s) < 2 ^ 64" using unsigned_less [of "count s", where ?'a=nat] by simp
  then show ?case by simp
next
  case (Suc N)
  then show ?case by (simp add: unat_count_INT0)
qed

lemma count_main_init: "count (main_init s) = 0"
  by (simp add: main_init_def Let_def)

text \<open>
  C1. After start-up, \<open>N\<close> detector pulses in a row leave the event counter at \<open>N\<close> as
  long as \<open>N\<close> is at most the largest 64-bit value, and at that largest value for every
  larger \<open>N\<close>: the counter saturates, it never wraps to zero.
\<close>

theorem count_after_pulses:
  "unat (count ((INT0_vect ^^ N) (main_init s))) = min N (2 ^ 64 - 1)"
  by (simp add: unat_count_pulses count_main_init)

subsection \<open>The hexadecimal encoder\<close>

lemma unat_low_nibble: "unat (ucast ((x::uint64_t) AND 0xF) :: uint8_t) = unat x mod 16"
proof -
  have "(x AND 0xF) = take_bit 4 x" by (simp add: take_bit_eq_mask mask_eq_exp_minus_1)
  then have "unat (x AND 0xF) = take_bit 4 (unat x)"
    by (simp only: unsigned_take_bit_eq)
  then have "unat (x AND 0xF) = unat x mod 16"
    by (simp add: take_bit_eq_mod)
  moreover have "unat (ucast (x AND 0xF) :: uint8_t) = unat (x AND 0xF) mod 256"
    by (simp add: unsigned_ucast_eq take_bit_eq_mod)
  ultimately show ?thesis by (simp add: mod_mod_cancel)
qed

lemma hex_digit_value_low:
  assumes "unat (d::uint8_t) < 10"
  shows "hex_digit_value (of_char CHR ''0'' + d) = Some (unat d)"
proof -
  from assms have "unat (48 + d) = 48 + unat d" by (simp add: unat_word_ariths)
  then show ?thesis using assms
    by (simp add: hex_digit_value_def word_le_nat_alt)
qed

lemma hex_digit_value_high:
  assumes "10 \<le> unat (d::uint8_t)" "unat d < 16"
  shows "hex_digit_value (of_char CHR ''A'' + (d - 10)) = Some (unat d)"
proof -
  from assms have a: "unat (d - 10) = unat d - 10" by (simp add: unat_sub word_le_nat_alt)
  with assms have "unat (65 + (d - 10)) = 55 + unat d"
    by (simp add: unat_word_ariths)
  then show ?thesis using assms
    by (simp add: hex_digit_value_def word_le_nat_alt)
qed

lemma hex_digit_value_nibble_char: "hex_digit_value (nibble_char x) = Some (unat x mod 16)"
proof -
  define d where "d = (ucast (x AND 0xF) :: uint8_t)"
  have d: "unat d = unat x mod 16" by (simp add: d_def unat_low_nibble)
  then have lt: "unat d < 16" by simp
  show ?thesis
  proof (cases "d < 10")
    case True
    then have "unat d < 10" by (simp add: word_less_nat_alt)
    then have "hex_digit_value (of_char CHR ''0'' + d) = Some (unat d)"
      by (rule hex_digit_value_low)
    with True d show ?thesis
      by (simp add: nibble_char_def d_def [symmetric])
  next
    case False
    then have ge: "10 \<le> unat d" by (simp add: word_less_nat_alt)
    then have "hex_digit_value (of_char CHR ''A'' + (d - 10)) = Some (unat d)"
      using lt by (rule hex_digit_value_high)
    with False d show ?thesis
      by (simp add: nibble_char_def d_def [symmetric])
  qed
qed

lemma length_hex_digits: "length (hex_digits k x) = k"
  by (induction k arbitrary: x) simp_all

lemma hexu64_loop_stop: "p < 0 \<Longrightarrow> hexu64_loop p x buf n = Inr (buf, n)"
  by (subst hexu64_loop.simps) simp

lemma hexu64_loop_step:
  "0 \<le> p \<Longrightarrow> nat p < length buf \<Longrightarrow>
   hexu64_loop p x buf n = hexu64_loop (p - 1) (drop_bit 4 x) (buf[nat p := nibble_char x]) (Suc n)"
  by (subst hexu64_loop.simps) (simp add: nibble_char_def Let_def)

lemma hexu64_loop_digits:
  "k \<le> length buf \<Longrightarrow>
   hexu64_loop (int k - 1) x buf n = Inr (hex_digits k x @ drop k buf, n + k)"
proof (induction k arbitrary: x buf n)
  case 0
  then show ?case by (simp add: hexu64_loop_stop)
next
  case (Suc k)
  then have k: "k < length buf" by simp
  have "hexu64_loop (int (Suc k) - 1) x buf n =
        hexu64_loop (int k - 1) (drop_bit 4 x) (buf[k := nibble_char x]) (Suc n)"
    using k hexu64_loop_step [of "int k" buf x n] by simp
  also have "\<dots> = Inr (hex_digits k (drop_bit 4 x) @ drop k (buf[k := nibble_char x]), Suc n + k)"
    using k by (intro Suc.IH) simp
  also have "drop k (buf[k := nibble_char x]) = nibble_char x # drop (Suc k) buf"
    using k by (simp add: Cons_nth_drop_Suc [symmetric])
  finally show ?case by simp
qed

lemma hexu64_counted_eq:
  "16 < length buf \<Longrightarrow>
   hexu64_counted x buf = Inr (hex_digits 16 x @ 0 # drop 17 buf, 16)"
proof -
  assume len: "16 < length buf"
  have "hexu64_loop (int 16 - 1) x (buf[16 := 0]) 0
        = Inr (hex_digits 16 x @ drop 16 (buf[16 := 0]), 0 + 16)"
    using len by (intro hexu64_loop_digits) simp
  moreover have "drop 16 (buf[16 := 0]) = 0 # drop 17 buf"
    using len by (simp add: Cons_nth_drop_Suc [symmetric])
  ultimately show ?thesis using len by (simp add: hexu64_counted_def)
qed

lemma hexu64_eq:
  "16 < length buf \<Longrightarrow> hexu64 x buf = Inr (hex_digits 16 x @ 0 # drop 17 buf)"
  by (simp add: hexu64_def hexu64_counted_eq)


lemma parse_hex_from_append:
  "parse_hex_from a (xs @ ys) =
     (case parse_hex_from a xs of None \<Rightarrow> None | Some b \<Rightarrow> parse_hex_from b ys)"
  by (induction xs arbitrary: a) (simp_all split: option.splits)

lemma unat_drop_bit_4: "unat (drop_bit 4 (x::uint64_t)) = unat x div 16"
proof -
  have "unat (drop_bit 4 x) = drop_bit 4 (unat x)" by (rule unat_drop_bit_eq)
  also have "\<dots> = unat x div 16" by (simp only: drop_bit_eq_div) simp
  finally show ?thesis .
qed

lemma parse_hex_from_digits:
  "parse_hex_from a (hex_digits k x) = Some (a * 16 ^ k + unat x mod 16 ^ k)"
proof (induction k arbitrary: x a)
  case 0
  then show ?case by simp
next
  case (Suc k)
  have "unat x mod (16 * 16 ^ k) = 16 * (unat x div 16 mod 16 ^ k) + unat x mod 16"
    by (simp add: mod_mult2_eq)
  then show ?case
    by (simp add: parse_hex_from_append Suc.IH hex_digit_value_nibble_char unat_drop_bit_4
        algebra_simps)
qed

lemma parse_hex_digits_16: "parse_hex (hex_digits 16 x) = Some (unat x)"
proof -
  have "unat x < 2 ^ 64" using unsigned_less [of x, where ?'a=nat] by simp
  then have "unat x mod 16 ^ 16 = unat x" by simp
  then show ?thesis by (simp add: parse_hex_def parse_hex_from_digits)
qed

lemma is_hex_upper_iff: "is_hex_upper c \<longleftrightarrow> hex_digit_value c \<noteq> None"
  by (simp add: is_hex_upper_def hex_digit_value_def)

lemma is_hex_upper_nibble_char: "is_hex_upper (nibble_char x)"
  by (simp add: is_hex_upper_iff hex_digit_value_nibble_char)

lemma list_all_hex_digits: "list_all is_hex_upper (hex_digits k x)"
  by (induction k arbitrary: x) (simp_all add: is_hex_upper_nibble_char)

lemma hex_digits_0: "hex_digits 16 0 = c_string ''0000000000000000''"
  by code_simp

lemma hex_digits_255: "hex_digits 16 255 = c_string ''00000000000000FF''"
  by code_simp

text \<open>
  C2. For every 64-bit \<open>x\<close>, \<open>hexu64\<close> leaves in a buffer of at least \<open>SER_BUFF_LEN\<close>
  bytes sixteen upper-case hexadecimal digits, leading zeros included, and a NUL after
  them; read back in base 16 the digits give \<open>x\<close>. The value 0 is encoded as
  \<open>0000000000000000\<close> and 255 as \<open>00000000000000FF\<close>.
\<close>

theorem hexu64_roundtrip:
  assumes "SER_BUFF_LEN \<le> length buf"
  shows "(\<exists>ds. hexu64 x buf = Inr (ds @ 0 # drop 17 buf) \<and> length ds = 16 \<and>
            list_all is_hex_upper ds \<and> parse_hex ds = Some (unat x)) \<and>
         hexu64 0 buf = Inr (c_string ''0000000000000000'' @ 0 # drop 17 buf) \<and>
         hexu64 255 buf = Inr (c_string ''00000000000000FF'' @ 0 # drop 17 buf)"
proof -
  from assms have len: "16 < length buf" by (simp add: SER_BUFF_LEN_def)
  have "hexu64 x buf = Inr (hex_digits 16 x @ 0 # drop 17 buf)"
    using len by (rule hexu64_eq)
  then have "\<exists>ds. hexu64 x buf = Inr (ds @ 0 # drop 17 buf) \<and> length ds = 16 \<and>
           list_all is_hex_upper ds \<and> parse_hex ds = Some (unat x)"
    using length_hex_digits [of 16 x] list_all_hex_digits [of 16 x] parse_hex_digits_16 [of x]
    by blast
  moreover have "hexu64 0 buf = Inr (c_string ''0000000000000000'' @ 0 # drop 17 buf)"
    using len by (simp only: hexu64_eq hex_digits_0)
  moreover have "hexu64 255 buf = Inr (c_string ''00000000000000FF'' @ 0 # drop 17 buf)"
    using len by (simp only: hexu64_eq hex_digits_255)
  ultimately show ?thesis by blast
qed

theorem hexu64_roundtrip_witness:
  "SER_BUFF_LEN \<le> length (replicate 17 (7::uint8_t)) \<and>
   (\<exists>ds. hexu64 0x1F (replicate 17 7) = Inr (ds @ 0 # drop 17 (replicate 17 7)) \<and>
      length ds = 16 \<and> list_all is_hex_upper ds \<and> parse_hex ds = Some (unat (0x1F::uint64_t)))"
proof -
  have h: "SER_BUFF_LEN \<le> length (replicate 17 (7::uint8_t))"
    by (simp add: SER_BUFF_LEN_def)
  from hexu64_roundtrip [OF h, of "0x1F"] h show ?thesis by blast
qed

text \<open>
  C9. For every \<open>x\<close> and every buffer of at least \<open>SER_BUFF_LEN\<close> (17) bytes, \<open>hexu64\<close>
  returns without a store outside the buffer, after exactly 16 executions of its loop
  body; the bytes from index 17 on are as before, the bytes at the indices 0 to 15 are
  characters \<open>0\<close> to \<open>9\<close> or \<open>A\<close> to \<open>F\<close>, and the byte at index 16 is NUL.
\<close>

theorem hexu64_stores_within_buffer:
  assumes "SER_BUFF_LEN \<le> length buf"
  shows "\<exists>buf'. hexu64_counted x buf = Inr (buf', 16) \<and> length buf' = length buf \<and>
           drop SER_BUFF_LEN buf' = drop SER_BUFF_LEN buf \<and>
           list_all is_hex_upper (take 16 buf') \<and> buf' ! 16 = 0"
proof -
  from assms have len: "16 < length buf" by (simp add: SER_BUFF_LEN_def)
  let ?b = "hex_digits 16 x @ 0 # drop 17 buf"
  have "hexu64_counted x buf = Inr (?b, 16)"
    using len by (rule hexu64_counted_eq)
  moreover have "length ?b = length buf"
    using len by (simp add: length_hex_digits)
  moreover have "drop SER_BUFF_LEN ?b = drop SER_BUFF_LEN buf"
    by (simp add: SER_BUFF_LEN_def length_hex_digits)
  moreover have "list_all is_hex_upper (take 16 ?b)"
    by (simp add: length_hex_digits list_all_hex_digits)
  moreover have "?b ! 16 = 0"
    by (simp add: nth_append length_hex_digits)
  ultimately show ?thesis by blast
qed

theorem hexu64_stores_within_buffer_witness:
  "SER_BUFF_LEN \<le> length (replicate 20 (7::uint8_t)) \<and>
   (\<exists>buf'. hexu64_counted 0xABC (replicate 20 7) = Inr (buf', 16) \<and>
      length buf' = length (replicate 20 (7::uint8_t)) \<and>
      drop SER_BUFF_LEN buf' = drop SER_BUFF_LEN (replicate 20 7) \<and>
      list_all is_hex_upper (take 16 buf') \<and> buf' ! 16 = 0)"
proof -
  have h: "SER_BUFF_LEN \<le> length (replicate 20 (7::uint8_t))"
    by (simp add: SER_BUFF_LEN_def)
  from hexu64_stores_within_buffer [OF h, of "0xABC"] h show ?thesis by blast
qed

subsection \<open>The button and the tick\<close>

lemma BV_simps:
  "BV PB4 = 16" "BV PB2 = 4" "BV PD3 = 8" "BV PD6 = 64" "BV INTF1 = 128" "BV COM0A0 = 64"
  "BV CS01 = 2" "BV WGM12 = 8" "BV CS12 = 4" "BV CS11 = 2" "BV CS10 = 1" "BV UDRE = 32"
  by (simp_all add: BV_def bit_names)

lemma feedback_mode_INT1:
  "feedback_mode (INT1_vect pind s) =
     (if pind AND BV PD3 = 0 then feedback_mode s + 1 else feedback_mode s)"
  by (simp add: INT1_vect_def delay_ms_def Let_def)

lemma elapsed_INT1: "elapsed_us (INT1_vect pind s) = elapsed_us s + 25000"
  by (simp add: INT1_vect_def delay_ms_def Let_def)

lemma unat_succ_mod4: "unat ((m::uint8_t) + 1) mod 4 = (unat m + 1) mod 4"
proof -
  have "unat (m + 1) = (unat m + 1) mod 256" by (simp add: unat_word_ariths)
  then show ?thesis by (simp add: mod_mod_cancel)
qed

text \<open>
  C4. If the button is still pressed when the handler samples it after the settle delay
  of 25 ms (bit PD3 of PIND reads 0), the handler advances the feedback mode by one, which
  is one step modulo 4; if the button is no longer pressed (the bit reads 1), the feedback
  mode stays as it was.
\<close>

theorem button_press_advances_mode:
  "(pind AND BV PD3 = 0 \<longrightarrow>
      feedback_mode (INT1_vect pind s) = feedback_mode s + 1 \<and>
      unat (feedback_mode (INT1_vect pind s)) mod 4 = (unat (feedback_mode s) + 1) mod 4) \<and>
   (pind AND BV PD3 \<noteq> 0 \<longrightarrow> feedback_mode (INT1_vect pind s) = feedback_mode s) \<and>
   elapsed_us (INT1_vect pind s) = elapsed_us s + 25 * 1000"
  by (simp add: feedback_mode_INT1 elapsed_INT1 unat_succ_mod4)

theorem button_press_advances_mode_witness:
  "(0::uint8_t) AND BV PD3 = 0 \<and>
   feedback_mode (INT1_vect 0 (power_on [])) = 1 \<and>
   unat (feedback_mode (INT1_vect 0 (power_on []))) mod 4 = 1 \<and>
   (8::uint8_t) AND BV PD3 \<noteq> 0 \<and>
   feedback_mode (INT1_vect 8 (power_on [])) = 0"
  using button_press_advances_mode [of 0 "power_on []"]
    button_press_advances_mode [of 8 "power_on []"]
  by (simp add: BV_simps power_on_def)

text \<open>
  C6. The timer interrupt handler sets the tick flag and changes nothing else: the event
  counter, the event flag, the feedback mode and the serial buffer keep their values, and
  putting the old tick flag back gives the old state.
\<close>

theorem tick_isr_frame:
  "tick (TIMER1_COMPA_vect s) = 1 \<and>
   count (TIMER1_COMPA_vect s) = count s \<and>
   eventflag (TIMER1_COMPA_vect s) = eventflag s \<and>
   feedback_mode (TIMER1_COMPA_vect s) = feedback_mode s \<and>
   serbuf (TIMER1_COMPA_vect s) = serbuf s \<and>
   (TIMER1_COMPA_vect s)\<lparr>tick := tick s\<rparr> = s"
  by (simp add: TIMER1_COMPA_vect_def)

lemma main_init_timer1:
  "TCCR1B (main_init s) = 13" "OCR1A (main_init s) = 65535"
  by (simp_all add: main_init_def Let_def BV_simps)

text \<open>
  C7. The constants \<open>main\<close> writes give a prescaler of 1024, which at 8 MHz is 128
  microseconds per timer count, and a compare value of 65535; one tick is then
  (65535 + 1) * 128 = 8388608 microseconds, about 8.4 seconds, and not the second the
  comments speak of.
\<close>

theorem tick_period_of_startup:
  "TCCR1B (main_init s) = BV WGM12 OR BV CS12 OR BV CS10 \<and>
   OCR1A (main_init s) = 65535 \<and>
   timer1_prescaler (TCCR1B (main_init s)) = Some 1024 \<and>
   timer1_count_us (main_init s) = Some 128 \<and>
   tick_period_us (main_init s) = Some ((65535 + 1) * 128) \<and>
   tick_period_us (main_init s) = Some 8388608 \<and>
   tick_period_us (main_init s) \<noteq> Some 1000000"
  by (simp add: main_init_timer1 tick_period_us_def timer1_count_us_def timer1_prescaler_def
      BV_simps F_CPU_def)

subsection \<open>The feedback routine\<close>

lemma and_1_bit0: "(m::uint8_t) AND 1 \<noteq> 0 \<longleftrightarrow> bit m 0"
  by (simp add: and_one_eq bit_0 mod_2_eq_odd)

lemma and_2_bit1: "(m::uint8_t) AND 2 \<noteq> 0 \<longleftrightarrow> bit m 1"
  using bit_iff_and_push_bit_not_eq_0 [of m 1] by simp

lemma bit_set_OR_BV: "n < 8 \<Longrightarrow> bit ((x::uint8_t) OR BV n) k \<longleftrightarrow> bit x k \<or> k = n"
  by (auto simp add: BV_def bit_or_iff bit_exp_iff possible_bit_word)

lemma bit_clear_AND_NOT_BV: "n < 8 \<Longrightarrow> bit ((x::uint8_t) AND NOT (BV n)) k \<longleftrightarrow> bit x k \<and> k \<noteq> n"
  by (auto simp add: BV_def bit_and_iff bit_not_iff bit_exp_iff possible_bit_word dest: bit_imp_le_length)

lemma checkevent_idle: "eventflag s = 0 \<Longrightarrow> checkevent s = s"
  by (simp add: checkevent_def)

lemma checkevent_busy:
  "eventflag s \<noteq> 0 \<Longrightarrow>
   checkevent s = checkevent_off (delay_ms 10 (checkevent_on (checkevent_clear s)))"
  by (simp add: checkevent_def)

lemma checkevent_clear_frame:
  "eventflag (checkevent_clear s) = 0" "(checkevent_clear s)\<lparr>eventflag := eventflag s\<rparr> = s"
  by (simp_all add: checkevent_clear_def)

lemma checkevent_on_PORTB:
  "PORTB (checkevent_on s) = (if bit (feedback_mode s) 0 then PORTB s OR BV PB4 else PORTB s)"
  by (simp add: checkevent_on_def Let_def and_1_bit0)

lemma checkevent_on_timer0:
  "TCCR0A (checkevent_on s) = (if bit (feedback_mode s) 1 then TCCR0A s OR BV COM0A0 else TCCR0A s)"
  "TCCR0B (checkevent_on s) = (if bit (feedback_mode s) 1 then TCCR0B s OR BV CS01 else TCCR0B s)"
  "OCR0A (checkevent_on s) = (if bit (feedback_mode s) 1 then 160 else OCR0A s)"
  by (simp_all add: checkevent_on_def Let_def and_2_bit1)

lemma checkevent_off_regs:
  "PORTB (checkevent_off s) = PORTB s AND NOT (BV PB4)"
  "TCCR0B (checkevent_off s) = 0"
  "TCCR0A (checkevent_off s) = TCCR0A s AND NOT (BV COM0A0)"
  "eventflag (checkevent_off s) = eventflag s"
  by (simp_all add: checkevent_off_def Let_def)

lemma led_during_hold:
  "bit (PORTB (checkevent_on (checkevent_clear s))) PB4 \<longleftrightarrow>
     bit (feedback_mode s) 0 \<or> bit (PORTB s) PB4"
  by (simp add: checkevent_on_PORTB checkevent_clear_def bit_set_OR_BV PB4_def)

lemma checkevent_after:
  assumes "eventflag s \<noteq> 0"
  shows "\<not> bit (PORTB (checkevent s)) PB4" "TCCR0B (checkevent s) = 0"
    "\<not> bit (TCCR0A (checkevent s)) COM0A0" "eventflag (checkevent s) = 0"
    "elapsed_us (checkevent s) = elapsed_us s + 10000"
  using assms
  by (simp_all add: checkevent_busy checkevent_off_regs bit_clear_AND_NOT_BV PB4_def COM0A0_def
      checkevent_off_def checkevent_on_def checkevent_clear_def delay_ms_def Let_def)

lemma tone_clock_during_hold:
  "TCCR0B (checkevent_on (checkevent_clear s)) \<noteq> 0 \<longleftrightarrow>
     bit (feedback_mode s) 1 \<or> TCCR0B s \<noteq> 0"
  by (simp add: checkevent_on_timer0 checkevent_clear_def BV_simps or_eq_0_iff)

lemma set_then_clear: "((x::uint8_t) OR b) AND NOT b = x AND NOT b"
  by (simp add: bit.conj_disj_distrib2)

lemma checkevent_result:
  "eventflag s \<noteq> 0 \<Longrightarrow>
   checkevent s =
     s\<lparr>eventflag := 0,
       PORTB := PORTB s AND NOT (BV PB4),
       TCCR0A := TCCR0A s AND NOT (BV COM0A0),
       TCCR0B := 0,
       OCR0A := (if bit (feedback_mode s) 1 then 160 else OCR0A s),
       elapsed_us := elapsed_us s + 10000\<rparr>"
  by (simp add: checkevent_def checkevent_off_def checkevent_on_def checkevent_clear_def
      delay_ms_def Let_def and_1_bit0 and_2_bit1 set_then_clear)

lemma feedback_when_settled:
  assumes "settled s"
  shows "bit (PORTB (checkevent_on (checkevent_clear s))) PB4 \<longleftrightarrow> bit (feedback_mode s) 0"
    and "TCCR0B (checkevent_on (checkevent_clear s)) \<noteq> 0 \<longleftrightarrow> bit (feedback_mode s) 1"
  using assms by (simp_all add: led_during_hold tone_clock_during_hold settled_def)

text \<open>
  C5. With the event flag clear \<open>checkevent\<close> does nothing. With the flag set it first
  resets the flag, touching nothing else; it then sets the LED bit of PORTB exactly if bit
  0 of the feedback mode is set, and connects and clocks Timer0 (the tone) exactly if bit
  1 is set, so that during the hold the LED is on if and only if bit 0 is set or it was on
  before, and Timer0 runs if and only if bit 1 is set or it ran before; in a settled state,
  where the LED is off and Timer0 is stopped on entry, that is if and only if the bit is
  set. When the routine returns, whatever the mode, the LED bit is clear, Timer0 has no
  clock (TCCR0B is 0) and its output is disconnected (COM0A0 is clear); the compare value
  in OCR0A stays as written.
\<close>

theorem checkevent_contract:
  "(eventflag s = 0 \<longrightarrow> checkevent s = s) \<and>
   (eventflag s \<noteq> 0 \<longrightarrow>
      checkevent s = checkevent_off (delay_ms 10 (checkevent_on (checkevent_clear s))) \<and>
      eventflag (checkevent_clear s) = 0 \<and>
      (checkevent_clear s)\<lparr>eventflag := eventflag s\<rparr> = s \<and>
      PORTB (checkevent_on (checkevent_clear s)) =
        (if bit (feedback_mode s) 0 then PORTB s OR BV PB4 else PORTB s) \<and>
      (bit (PORTB (checkevent_on (checkevent_clear s))) PB4 \<longleftrightarrow>
         bit (feedback_mode s) 0 \<or> bit (PORTB s) PB4) \<and>
      TCCR0A (checkevent_on (checkevent_clear s)) =
        (if bit (feedback_mode s) 1 then TCCR0A s OR BV COM0A0 else TCCR0A s) \<and>
      TCCR0B (checkevent_on (checkevent_clear s)) =
        (if bit (feedback_mode s) 1 then TCCR0B s OR BV CS01 else TCCR0B s) \<and>
      OCR0A (checkevent_on (checkevent_clear s)) =
        (if bit (feedback_mode s) 1 then 160 else OCR0A s) \<and>
      (TCCR0B (checkevent_on (checkevent_clear s)) \<noteq> 0 \<longleftrightarrow>
         bit (feedback_mode s) 1 \<or> TCCR0B s \<noteq> 0) \<and>
      (settled s \<longrightarrow>
         (bit (PORTB (checkevent_on (checkevent_clear s))) PB4 \<longleftrightarrow>
            bit (feedback_mode s) 0) \<and>
         (TCCR0B (checkevent_on (checkevent_clear s)) \<noteq> 0 \<longleftrightarrow>
            bit (feedback_mode s) 1)) \<and>
      eventflag (checkevent s) = 0 \<and>
      \<not> bit (PORTB (checkevent s)) PB4 \<and>
      TCCR0B (checkevent s) = 0 \<and>
      \<not> bit (TCCR0A (checkevent s)) COM0A0)"
proof (intro conjI impI)
  assume "eventflag s = 0"
  then show "checkevent s = s" by (rule checkevent_idle)
next
  assume busy: "eventflag s \<noteq> 0"
  show "checkevent s = checkevent_off (delay_ms 10 (checkevent_on (checkevent_clear s)))"
    using busy by (rule checkevent_busy)
  show "eventflag (checkevent s) = 0" "\<not> bit (PORTB (checkevent s)) PB4"
    "TCCR0B (checkevent s) = 0" "\<not> bit (TCCR0A (checkevent s)) COM0A0"
    using busy by (simp_all add: checkevent_after)
  show "bit (PORTB (checkevent_on (checkevent_clear s))) PB4 \<longleftrightarrow>
          bit (feedback_mode s) 0 \<or> bit (PORTB s) PB4"
    by (rule led_during_hold)
  show "TCCR0B (checkevent_on (checkevent_clear s)) \<noteq> 0 \<longleftrightarrow>
          bit (feedback_mode s) 1 \<or> TCCR0B s \<noteq> 0"
    by (rule tone_clock_during_hold)
next
  assume "settled s"
  then show "bit (PORTB (checkevent_on (checkevent_clear s))) PB4 \<longleftrightarrow>
          bit (feedback_mode s) 0"
    by (rule feedback_when_settled)
next
  assume "settled s"
  then show "TCCR0B (checkevent_on (checkevent_clear s)) \<noteq> 0 \<longleftrightarrow>
          bit (feedback_mode s) 1"
    by (rule feedback_when_settled)
qed (simp_all add: checkevent_clear_frame checkevent_on_PORTB checkevent_on_timer0
      checkevent_clear_def)

theorem checkevent_contract_witness:
  "eventflag (power_on []) = 0 \<and>
   checkevent (power_on []) = power_on [] \<and>
   eventflag ((power_on [])\<lparr>eventflag := 1, feedback_mode := 3\<rparr>) \<noteq> 0 \<and>
   settled ((power_on [])\<lparr>eventflag := 1, feedback_mode := 3\<rparr>) \<and>
   bit (PORTB (checkevent_on (checkevent_clear
         ((power_on [])\<lparr>eventflag := 1, feedback_mode := 3\<rparr>)))) PB4 \<and>
   TCCR0B (checkevent_on (checkevent_clear
         ((power_on [])\<lparr>eventflag := 1, feedback_mode := 3\<rparr>))) \<noteq> 0 \<and>
   eventflag (checkevent ((power_on [])\<lparr>eventflag := 1, feedback_mode := 3\<rparr>)) = 0 \<and>
   \<not> bit (PORTB (checkevent ((power_on [])\<lparr>eventflag := 1, feedback_mode := 3\<rparr>))) PB4 \<and>
   TCCR0B (checkevent ((power_on [])\<lparr>eventflag := 1, feedback_mode := 3\<rparr>)) = 0"
proof -
  let ?idle = "power_on []"
  let ?busy = "(power_on [])\<lparr>eventflag := 1, feedback_mode := 3\<rparr>"
  have i: "eventflag ?idle = 0" by (simp add: power_on_def)
  have b: "eventflag ?busy \<noteq> 0" by simp
  have st: "settled ?busy" by (simp add: settled_def power_on_def)
  have m: "bit (feedback_mode ?busy) 0" "bit (feedback_mode ?busy) 1" by simp_all
  from checkevent_contract [of ?idle] i have 1: "checkevent ?idle = ?idle" by blast
  from checkevent_contract [of ?busy] b st m
  have 2: "bit (PORTB (checkevent_on (checkevent_clear ?busy))) PB4"
    and 3: "TCCR0B (checkevent_on (checkevent_clear ?busy)) \<noteq> 0"
    and 4: "eventflag (checkevent ?busy) = 0"
    and 5: "\<not> bit (PORTB (checkevent ?busy)) PB4"
    and 6: "TCCR0B (checkevent ?busy) = 0"
    by blast+
  from i b st 1 2 3 4 5 6 show ?thesis by blast
qed

lemma low_bits_of_mod4:
  assumes "unat (m1::uint8_t) mod 4 = unat m2 mod 4"
  shows "bit m1 0 \<longleftrightarrow> bit m2 0" and "bit m1 1 \<longleftrightarrow> bit m2 1"
proof -
  from assms have eq: "take_bit 2 (unat m1) = take_bit 2 (unat m2)"
    by (simp add: take_bit_eq_mod)
  have "\<And>n. n < 2 \<Longrightarrow> bit (unat m1) n \<longleftrightarrow> bit (unat m2) n"
  proof -
    fix n :: nat assume "n < 2"
    then have "bit (unat m1) n \<longleftrightarrow> bit (take_bit 2 (unat m1)) n"
      by (simp add: bit_take_bit_iff)
    also have "\<dots> \<longleftrightarrow> bit (take_bit 2 (unat m2)) n" by (simp only: eq)
    also have "\<dots> \<longleftrightarrow> bit (unat m2) n" using \<open>n < 2\<close> by (simp add: bit_take_bit_iff)
    finally show "bit (unat m1) n \<longleftrightarrow> bit (unat m2) n" .
  qed
  then have "bit (unat m1) 0 \<longleftrightarrow> bit (unat m2) 0" "bit (unat m1) 1 \<longleftrightarrow> bit (unat m2) 1"
    by simp_all
  then show "bit m1 0 \<longleftrightarrow> bit m2 0" and "bit m1 1 \<longleftrightarrow> bit m2 1"
    by (simp_all add: bit_unsigned_iff)
qed

lemma checkevent_on_mode_cong:
  assumes "bit m1 0 \<longleftrightarrow> bit m2 0" "bit m1 1 \<longleftrightarrow> bit m2 1"
  shows "checkevent_on (checkevent_clear (s\<lparr>feedback_mode := m1\<rparr>)) =
         (checkevent_on (checkevent_clear (s\<lparr>feedback_mode := m2\<rparr>)))\<lparr>feedback_mode := m1\<rparr>"
  using assms by (simp add: checkevent_on_def checkevent_clear_def Let_def and_1_bit0 and_2_bit1)

lemma checkevent_mode_cong:
  assumes "bit m1 0 \<longleftrightarrow> bit m2 0" "bit m1 1 \<longleftrightarrow> bit m2 1"
  shows "checkevent (s\<lparr>feedback_mode := m1\<rparr>) =
         (checkevent (s\<lparr>feedback_mode := m2\<rparr>))\<lparr>feedback_mode := m1\<rparr>"
  using assms
  by (simp add: checkevent_def checkevent_on_def checkevent_clear_def checkevent_off_def
      delay_ms_def Let_def and_1_bit0 and_2_bit1)

lemma unat_succ_mod256: "unat ((m::uint8_t) + 1) = (unat m + 1) mod 256"
  by (simp add: unat_word_ariths)

text \<open>
  C10. \<open>checkevent\<close> looks at the two low bits of the feedback mode only: for two mode
  values that agree modulo 4, the state during the hold and the state on return are the
  same apart from the mode value itself, which the routine does not change. The button
  handler advances the mode as an 8-bit number, modulo 256, and this is one step modulo 4
  also when 255 wraps to 0.
\<close>

theorem feedback_depends_on_low_two_bits:
  "(unat m1 mod 4 = unat m2 mod 4 \<longrightarrow>
      checkevent_on (checkevent_clear (s\<lparr>feedback_mode := m1\<rparr>)) =
        (checkevent_on (checkevent_clear (s\<lparr>feedback_mode := m2\<rparr>)))\<lparr>feedback_mode := m1\<rparr> \<and>
      checkevent (s\<lparr>feedback_mode := m1\<rparr>) =
        (checkevent (s\<lparr>feedback_mode := m2\<rparr>))\<lparr>feedback_mode := m1\<rparr>) \<and>
   (pind AND BV PD3 = 0 \<longrightarrow>
      unat (feedback_mode (INT1_vect pind s)) = (unat (feedback_mode s) + 1) mod 256 \<and>
      unat (feedback_mode (INT1_vect pind s)) mod 4 = (unat (feedback_mode s) mod 4 + 1) mod 4)"
proof (intro conjI impI)
  assume eq: "unat m1 mod 4 = unat m2 mod 4"
  note bits = low_bits_of_mod4 [OF eq]
  show "checkevent_on (checkevent_clear (s\<lparr>feedback_mode := m1\<rparr>)) =
        (checkevent_on (checkevent_clear (s\<lparr>feedback_mode := m2\<rparr>)))\<lparr>feedback_mode := m1\<rparr>"
    using bits by (rule checkevent_on_mode_cong)
  show "checkevent (s\<lparr>feedback_mode := m1\<rparr>) =
        (checkevent (s\<lparr>feedback_mode := m2\<rparr>))\<lparr>feedback_mode := m1\<rparr>"
    using bits by (rule checkevent_mode_cong)
next
  assume "pind AND BV PD3 = 0"
  then show "unat (feedback_mode (INT1_vect pind s)) = (unat (feedback_mode s) + 1) mod 256"
    by (simp add: feedback_mode_INT1 unat_succ_mod256)
next
  assume "pind AND BV PD3 = 0"
  then show "unat (feedback_mode (INT1_vect pind s)) mod 4 = (unat (feedback_mode s) mod 4 + 1) mod 4"
    by (simp add: feedback_mode_INT1 unat_succ_mod4 mod_simps)
qed

theorem feedback_depends_on_low_two_bits_witness:
  "unat (255::uint8_t) mod 4 = unat (3::uint8_t) mod 4 \<and>
   checkevent ((power_on [])\<lparr>eventflag := 1, feedback_mode := 255\<rparr>) =
     (checkevent ((power_on [])\<lparr>eventflag := 1, feedback_mode := 3\<rparr>))\<lparr>feedback_mode := 255\<rparr> \<and>
   (0::uint8_t) AND BV PD3 = 0 \<and>
   feedback_mode (INT1_vect 0 ((power_on [])\<lparr>feedback_mode := 255\<rparr>)) = 0"
  using feedback_depends_on_low_two_bits [of 255 3 "(power_on [])\<lparr>eventflag := 1\<rparr>" 0]
    feedback_depends_on_low_two_bits [of 255 3 "(power_on [])\<lparr>feedback_mode := 255\<rparr>" 0]
  by (simp add: BV_simps feedback_mode_INT1)

subsection \<open>The reporter\<close>

lemma loop_until_ready:
  "0 < tx_ready_count reads \<Longrightarrow>
   \<exists>rest. loop_until_bit_is_set reads UDRE = Inr rest \<and>
          tx_ready_count rest = tx_ready_count reads - 1"
  by (induction reads) (auto simp add: tx_ready_count_def)

lemma uart_putchar_plain:
  "c \<noteq> 10 \<Longrightarrow>
   uart_putchar c s =
     (case loop_until_bit_is_set (UCSRA_reads s) UDRE of
        Inl e \<Rightarrow> Inl e
      | Inr rest \<Rightarrow> Inr (s\<lparr>UCSRA_reads := rest, UDR_sent := UDR_sent s @ [c]\<rparr>))"
  by (subst uart_putchar.simps) simp

lemma uart_putchar_newline:
  "uart_putchar (10) s =
     (case uart_putchar (13) s of
        Inl e \<Rightarrow> Inl e
      | Inr s1 \<Rightarrow>
          (case loop_until_bit_is_set (UCSRA_reads s1) UDRE of
             Inl e \<Rightarrow> Inl e
           | Inr rest \<Rightarrow>
               Inr (s1\<lparr>UCSRA_reads := rest, UDR_sent := UDR_sent s1 @ [10]\<rparr>)))"
  by (subst uart_putchar.simps) simp

lemma uart_putchar_plain_ready:
  assumes "c \<noteq> 10" "0 < tx_ready_count (UCSRA_reads s)"
  shows "\<exists>rest. uart_putchar c s = Inr (s\<lparr>UCSRA_reads := rest, UDR_sent := UDR_sent s @ [c]\<rparr>) \<and>
           tx_ready_count rest = tx_ready_count (UCSRA_reads s) - 1"
proof -
  from loop_until_ready [OF assms(2)] obtain rest where
    "loop_until_bit_is_set (UCSRA_reads s) UDRE = Inr rest"
    "tx_ready_count rest = tx_ready_count (UCSRA_reads s) - 1" by blast
  with assms(1) show ?thesis by (auto simp add: uart_putchar_plain)
qed

lemma uart_putchar_newline_ready:
  assumes "2 \<le> tx_ready_count (UCSRA_reads s)"
  shows "\<exists>rest. uart_putchar (10) s =
             Inr (s\<lparr>UCSRA_reads := rest,
                    UDR_sent := UDR_sent s @ [13, 10]\<rparr>) \<and>
           tx_ready_count rest = tx_ready_count (UCSRA_reads s) - 2"
proof -
  have cr: "(13 :: uint8_t) \<noteq> 10" by simp
  from assms have "0 < tx_ready_count (UCSRA_reads s)" by simp
  from uart_putchar_plain_ready [OF cr this] obtain r1 where
    1: "uart_putchar (13) s =
          Inr (s\<lparr>UCSRA_reads := r1, UDR_sent := UDR_sent s @ [13]\<rparr>)"
    and n1: "tx_ready_count r1 = tx_ready_count (UCSRA_reads s) - 1" by blast
  from assms n1 have "0 < tx_ready_count r1" by simp
  from loop_until_ready [OF this] obtain r2 where
    2: "loop_until_bit_is_set r1 UDRE = Inr r2"
    and n2: "tx_ready_count r2 = tx_ready_count r1 - 1" by blast
  from 1 2 n1 n2 show ?thesis
    by (intro exI [of _ r2]) (simp add: uart_putchar_newline)
qed

lemma uart_putstring_ready:
  assumes "\<forall>c \<in> set cs. c \<noteq> 0 \<and> c \<noteq> 10"
    and "length cs \<le> tx_ready_count (UCSRA_reads s)"
  shows "\<exists>rest. uart_putstring (cs @ 0 # after) s =
             Inr (s\<lparr>UCSRA_reads := rest, UDR_sent := UDR_sent s @ cs\<rparr>) \<and>
           tx_ready_count rest = tx_ready_count (UCSRA_reads s) - length cs"
  using assms
proof (induction cs arbitrary: s)
  case Nil
  have "s\<lparr>UCSRA_reads := UCSRA_reads s, UDR_sent := UDR_sent s @ []\<rparr> = s" by simp
  then show ?case by (intro exI [of _ "UCSRA_reads s"]) simp
next
  case (Cons c cs)
  from Cons.prems have c: "c \<noteq> 0" "c \<noteq> 10"
    and pos: "0 < tx_ready_count (UCSRA_reads s)" by auto
  from uart_putchar_plain_ready [OF c(2) pos] obtain r1 where
    1: "uart_putchar c s = Inr (s\<lparr>UCSRA_reads := r1, UDR_sent := UDR_sent s @ [c]\<rparr>)"
    and n1: "tx_ready_count r1 = tx_ready_count (UCSRA_reads s) - 1" by blast
  let ?s1 = "s\<lparr>UCSRA_reads := r1, UDR_sent := UDR_sent s @ [c]\<rparr>"
  have "\<exists>rest. uart_putstring (cs @ 0 # after) ?s1 =
             Inr (?s1\<lparr>UCSRA_reads := rest, UDR_sent := UDR_sent ?s1 @ cs\<rparr>) \<and>
           tx_ready_count rest = tx_ready_count (UCSRA_reads ?s1) - length cs"
    using Cons.prems n1 by (intro Cons.IH) auto
  then obtain r2 where
    2: "uart_putstring (cs @ 0 # after) ?s1 =
          Inr (?s1\<lparr>UCSRA_reads := r2, UDR_sent := UDR_sent ?s1 @ cs\<rparr>)"
    and n2: "tx_ready_count r2 = tx_ready_count (UCSRA_reads ?s1) - length cs" by blast
  from c 1 2 n1 n2 show ?case by (intro exI [of _ r2]) simp
qed


lemma is_hex_upper_plain: "is_hex_upper c \<Longrightarrow> c \<noteq> 0 \<and> c \<noteq> 10"
  by (auto simp add: is_hex_upper_def)

lemma hex_digits_plain: "\<forall>c \<in> set (hex_digits k x). c \<noteq> 0 \<and> c \<noteq> 10"
  using list_all_hex_digits [of k x] by (auto simp add: list_all_iff dest: is_hex_upper_plain)

lemma sendreport_idle: "tick s = 0 \<Longrightarrow> sendreport s = Inr s"
  by (simp add: sendreport_def)

lemma sendreport_sends:
  assumes t: "tick s \<noteq> 0"
    and len: "SER_BUFF_LEN \<le> length (serbuf s)"
    and rdy: "18 \<le> tx_ready_count (UCSRA_reads s)"
  shows "\<exists>rest. sendreport s =
           Inr (s\<lparr>tick := 0,
                  serbuf := hex_digits 16 (count s) @ 0 # drop 17 (serbuf s),
                  UCSRA_reads := rest,
                  UDR_sent := UDR_sent s @ hex_digits 16 (count s) @ [13, 10]\<rparr>) \<and>
           tx_ready_count rest = tx_ready_count (UCSRA_reads s) - 18"
proof -
  let ?ds = "hex_digits 16 (count s)"
  let ?buf = "?ds @ 0 # drop 17 (serbuf s)"
  let ?s2 = "s\<lparr>tick := 0, serbuf := ?buf\<rparr>"
  from len have "16 < length (serbuf s)" by (simp add: SER_BUFF_LEN_def)
  then have hex: "hexu64 (count s) (serbuf s) = Inr ?buf" by (rule hexu64_eq)
  have "length ?ds \<le> tx_ready_count (UCSRA_reads ?s2)"
    using rdy by (simp add: length_hex_digits)
  from uart_putstring_ready [OF hex_digits_plain this, of "drop 17 (serbuf s)"]
  obtain r1 where
    1: "uart_putstring ?buf ?s2 = Inr (?s2\<lparr>UCSRA_reads := r1, UDR_sent := UDR_sent ?s2 @ ?ds\<rparr>)"
    and n1: "tx_ready_count r1 = tx_ready_count (UCSRA_reads ?s2) - length ?ds" by blast
  let ?s3 = "?s2\<lparr>UCSRA_reads := r1, UDR_sent := UDR_sent ?s2 @ ?ds\<rparr>"
  from n1 rdy have "2 \<le> tx_ready_count (UCSRA_reads ?s3)"
    by (simp add: length_hex_digits)
  from uart_putchar_newline_ready [OF this] obtain r2 where
    2: "uart_putchar 10 ?s3 =
          Inr (?s3\<lparr>UCSRA_reads := r2, UDR_sent := UDR_sent ?s3 @ [13, 10]\<rparr>)"
    and n2: "tx_ready_count r2 = tx_ready_count (UCSRA_reads ?s3) - 2" by blast
  have "sendreport s = Inr (?s3\<lparr>UCSRA_reads := r2, UDR_sent := UDR_sent ?s3 @ [13, 10]\<rparr>)"
    using t hex 1 2 by (simp add: sendreport_def Let_def)
  moreover have "tx_ready_count r2 = tx_ready_count (UCSRA_reads s) - 18"
    using n1 n2 by (simp add: length_hex_digits)
  ultimately show ?thesis by (intro exI [of _ r2]) simp
qed

text \<open>
  C3. With the tick flag clear \<open>sendreport\<close> returns the state as it was: nothing is
  sent. With the flag set, a serial buffer of \<open>SER_BUFF_LEN\<close> bytes and a transmitter
  that becomes ready for each of the 18 bytes, it clears the flag and sends exactly the 16
  hexadecimal digits of the event counter, a carriage return and a line feed; nothing
  else changes but the buffer, which holds the digits and a NUL, and the status reads
  that were consumed.
\<close>

theorem sendreport_contract:
  "(tick s = 0 \<longrightarrow> sendreport s = Inr s) \<and>
   (tick s \<noteq> 0 \<and> SER_BUFF_LEN \<le> length (serbuf s) \<and> 18 \<le> tx_ready_count (UCSRA_reads s) \<longrightarrow>
      (\<exists>ds rest.
         sendreport s =
           Inr (s\<lparr>tick := 0,
                  serbuf := ds @ 0 # drop 17 (serbuf s),
                  UCSRA_reads := rest,
                  UDR_sent := UDR_sent s @ ds @ c_string [CHR 0x0D, CHR 0x0A]\<rparr>) \<and>
         length ds = 16 \<and> list_all is_hex_upper ds \<and> parse_hex ds = Some (unat (count s))))"
proof (intro conjI impI)
  assume "tick s = 0"
  then show "sendreport s = Inr s" by (rule sendreport_idle)
next
  assume a: "tick s \<noteq> 0 \<and> SER_BUFF_LEN \<le> length (serbuf s) \<and> 18 \<le> tx_ready_count (UCSRA_reads s)"
  then obtain rest where
    "sendreport s =
       Inr (s\<lparr>tick := 0,
              serbuf := hex_digits 16 (count s) @ 0 # drop 17 (serbuf s),
              UCSRA_reads := rest,
              UDR_sent := UDR_sent s @ hex_digits 16 (count s) @ [13, 10]\<rparr>)"
    using sendreport_sends [of s] by blast
  moreover have "c_string [CHR 0x0D, CHR 0x0A] = [13, 10]" by (simp add: c_string_def)
  ultimately show "\<exists>ds rest.
         sendreport s =
           Inr (s\<lparr>tick := 0,
                  serbuf := ds @ 0 # drop 17 (serbuf s),
                  UCSRA_reads := rest,
                  UDR_sent := UDR_sent s @ ds @ c_string [CHR 0x0D, CHR 0x0A]\<rparr>) \<and>
         length ds = 16 \<and> list_all is_hex_upper ds \<and> parse_hex ds = Some (unat (count s))"
    using length_hex_digits [of 16 "count s"] list_all_hex_digits [of 16 "count s"]
      parse_hex_digits_16 [of "count s"]
    by (intro exI [of _ "hex_digits 16 (count s)"] exI [of _ rest]) simp
qed

lemma sendreport_example:
  "sendreport ((power_on (replicate 18 (BV UDRE)))\<lparr>tick := 1, count := 255\<rparr>) =
     Inr ((power_on [])\<lparr>count := 255, serbuf := c_string ''00000000000000FF'' @ [0],
            UDR_sent := c_string ''00000000000000FF'' @ [13, 10]\<rparr>)"
  by code_simp

theorem sendreport_contract_witness:
  "tick (power_on []) = 0 \<and>
   sendreport (power_on []) = Inr (power_on []) \<and>
   tick ((power_on (replicate 18 (BV UDRE)))\<lparr>tick := 1, count := 255\<rparr>) \<noteq> 0 \<and>
   SER_BUFF_LEN \<le> length (serbuf ((power_on (replicate 18 (BV UDRE)))\<lparr>tick := 1, count := 255\<rparr>)) \<and>
   18 \<le> tx_ready_count (UCSRA_reads ((power_on (replicate 18 (BV UDRE)))\<lparr>tick := 1, count := 255\<rparr>)) \<and>
   (\<exists>ds rest.
      sendreport ((power_on (replicate 18 (BV UDRE)))\<lparr>tick := 1, count := 255\<rparr>) =
        Inr ((power_on (replicate 18 (BV UDRE)))
               \<lparr>tick := 0, count := 255, serbuf := ds @ [0], UCSRA_reads := rest,
                UDR_sent := ds @ c_string [CHR 0x0D, CHR 0x0A]\<rparr>) \<and>
      length ds = 16 \<and> list_all is_hex_upper ds \<and> parse_hex ds = Some 255)"
proof -
  let ?idle = "power_on []"
  let ?due = "(power_on (replicate 18 (BV UDRE)))\<lparr>tick := 1, count := 255\<rparr>"
  have i: "tick ?idle = 0" by (simp add: power_on_def)
  have d: "tick ?due \<noteq> 0" "SER_BUFF_LEN \<le> length (serbuf ?due)"
    "18 \<le> tx_ready_count (UCSRA_reads ?due)"
    by (simp_all add: power_on_def tx_ready_count_def BV_simps)
  from sendreport_contract [of ?idle] i have 1: "sendreport ?idle = Inr ?idle" by blast
  from sendreport_contract [of ?due] d obtain ds rest where
    "sendreport ?due =
       Inr (?due\<lparr>tick := 0, serbuf := ds @ 0 # drop 17 (serbuf ?due), UCSRA_reads := rest,
              UDR_sent := UDR_sent ?due @ ds @ c_string [CHR 0x0D, CHR 0x0A]\<rparr>)"
    "length ds = 16" "list_all is_hex_upper ds" "parse_hex ds = Some (unat (count ?due))"
    by blast
  then have 2: "\<exists>ds rest.
      sendreport ?due =
        Inr ((power_on (replicate 18 (BV UDRE)))
               \<lparr>tick := 0, count := 255, serbuf := ds @ [0], UCSRA_reads := rest,
                UDR_sent := ds @ c_string [CHR 0x0D, CHR 0x0A]\<rparr>) \<and>
      length ds = 16 \<and> list_all is_hex_upper ds \<and> parse_hex ds = Some 255"
    by (intro exI [of _ ds] exI [of _ rest]) (simp add: power_on_def SER_BUFF_LEN_def)
  from i d 1 2 show ?thesis by blast
qed

subsection \<open>The main loop\<close>












lemma loop_until_fault: "loop_until_bit_is_set reads b = Inl e \<Longrightarrow> e = Tx_stalled"
  by (induction reads) (auto split: if_splits)

lemma uart_putchar_plain_frame:
  assumes "c \<noteq> 10"
  shows "uart_putchar c s = Inl e \<Longrightarrow> e = Tx_stalled"
    and "uart_putchar c s = Inr s' \<Longrightarrow> \<exists>r u. s' = s\<lparr>UCSRA_reads := r, UDR_sent := u\<rparr>"
  using assms by (auto simp add: uart_putchar_plain split: sum.splits dest: loop_until_fault)

lemma uart_putchar_fault: "uart_putchar c s = Inl e \<Longrightarrow> e = Tx_stalled"
proof (cases "c = 10")
  case True
  assume "uart_putchar c s = Inl e"
  with True show ?thesis
    by (auto simp add: uart_putchar_newline split: sum.splits
        dest: loop_until_fault uart_putchar_plain_frame(1) [rotated])
next
  case False
  assume "uart_putchar c s = Inl e"
  with False show ?thesis by (auto dest: uart_putchar_plain_frame(1))
qed






























subsection \<open>The counter and the outputs over whole runs\<close>

text \<open>
  Start-up leaves a settled state and \<open>checkevent\<close> keeps it settled. Only the detector
  interrupt changes the event counter: after any run from power-on it is the number of
  detector pulses of the run, cut off at the largest 64-bit value.
\<close>

lemma settled_power_on: "settled (main_init (power_on reads))"
  by (simp add: settled_def main_init_def power_on_def Let_def)

lemma settled_checkevent: "settled s \<Longrightarrow> settled (checkevent s)"
  by (simp add: settled_def checkevent_def checkevent_off_def checkevent_on_def
      checkevent_clear_def delay_ms_def Let_def bit_clear_AND_NOT_BV PB4_def)

lemma pulses_Cons:
  "pulses (Cpu # evs) = pulses evs"
  "pulses (Interrupt i # evs) = (if i = Detector_pulse then 1 else 0) + pulses evs"
  by (simp_all add: pulses_def)

lemma callee_step_count: "callee_step f s = Inr (fs, s') \<Longrightarrow> count s' = count s"
  by (cases "(f, s)" rule: callee_step.cases)
    (auto simp add: Let_def delay_ms_def split: if_splits list.splits)

lemma main_step_count: "main_step p s = (p', fs, s') \<Longrightarrow> count s' = count s"
  by (cases p) (auto simp add: set_sleep_mode_def sleep_enable_def sleep_disable_def)

lemma cpu_step_count:
  "cpu_step (calls, p, stk, s) = Inr (calls', p', stk', s') \<Longrightarrow> count s' = count s"
  by (cases stk) (auto split: sum.splits prod.splits dest: main_step_count callee_step_count)

lemma count_isr:
  "unat (count (isr i s)) = min (unat (count s) + (if i = Detector_pulse then 1 else 0)) (2 ^ 64 - 1)"
proof -
  have lt: "unat (count s) < 2 ^ 64" using unsigned_less [of "count s", where ?'a=nat] by simp
  show ?thesis
  proof (cases i)
    case Detector_pulse
    then show ?thesis by (simp add: unat_count_INT0)
  next
    case (Button pind)
    with lt show ?thesis by (simp add: INT1_vect_def delay_ms_def Let_def)
  next
    case Timer1_match
    with lt show ?thesis by (simp add: TIMER1_COMPA_vect_def)
  qed
qed

lemma count_after_run:
  "run evs (calls, p, stk, s) = Inr (calls', p', stk', s') \<Longrightarrow>
   unat (count s') = min (unat (count s) + pulses evs) (2 ^ 64 - 1)"
proof (induction evs arbitrary: calls p stk s)
  case Nil
  have "unat (count s) < 2 ^ 64" using unsigned_less [of "count s", where ?'a=nat] by simp
  with Nil show ?case by (simp add: pulses_def)
next
  case (Cons ev evs)
  show ?case
  proof (cases ev)
    case (Interrupt i)
    let ?t = "isr i s"
    from Cons.prems Interrupt
    have "run evs (calls, if p = Asleep then At_wake else p, stk, ?t) =
            Inr (calls', p', stk', s')" by simp
    then have "unat (count s') = min (unat (count ?t) + pulses evs) (2 ^ 64 - 1)"
      by (rule Cons.IH)
    moreover have "pulses (ev # evs) = (if i = Detector_pulse then 1 else 0) + pulses evs"
      using Interrupt by (simp add: pulses_Cons)
    ultimately show ?thesis by (simp add: count_isr)
  next
    case Cpu
    with Cons.prems obtain c1 q k t where
      q: "cpu_step (calls, p, stk, s) = Inr (c1, q, k, t)"
      and r: "run evs (c1, q, k, t) = Inr (calls', p', stk', s')"
      by (auto split: sum.splits)
    from r have "unat (count s') = min (unat (count t) + pulses evs) (2 ^ 64 - 1)"
      by (rule Cons.IH)
    with cpu_step_count [OF q] Cpu show ?thesis by (simp add: pulses_Cons)
  qed
qed

lemma count_from_power_on:
  "run evs ([], Loop_head, [], main_init (power_on reads)) = Inr (calls, p, stk, s') \<Longrightarrow>
   unat (count s') = min (pulses evs) (2 ^ 64 - 1)"
  using count_after_run [of evs "[]" Loop_head "[]" "main_init (power_on reads)" calls p stk s']
  by (simp add: count_main_init)

end
